theory Spec2Isabelle
  imports Main "HOL-Library.Sublist"
begin

section \<open>Exceptions\<close>

text \<open>
  The Python exceptions that the modelled code can raise.  All of them derive from
  \<^verbatim>\<open>Exception\<close>, so the handler of the URL loop catches every one of them.
  \<open>ValueError\<close> carries the URL of the message built by \<^verbatim>\<open>extract_shortcode_from_url\<close>;
  \<open>ShutilError\<close> is \<^verbatim>\<open>shutil.Error\<close>; \<open>RemoteError\<close> stands for any exception raised by the
  instaloader library (network, login required, post not found).
\<close>

datatype exn =
    ValueError string
  | FileNotFoundError
  | NotADirectoryError
  | FileExistsError
  | IsADirectoryError
  | OSError
  | KeyError
  | ShutilError
  | RemoteError

section \<open>URL parser\<close>

text \<open>
  \<^verbatim>\<open>re.search(r"instagram\.com/p/([^/]+)/?", url)\<close>: the leftmost position at which the
  pattern matches.  At a fixed position the pattern matches when the literal text
  \<^verbatim>\<open>instagram.com/p/\<close> is there and at least one character other than \<^verbatim>\<open>/\<close> follows; the
  group is greedy, and the optional slash after it always matches (a slash or nothing), so
  group 1 is the maximal run of non-slash characters.  A negated character class also
  matches a newline.
\<close>

definition match_here :: "string \<Rightarrow> string option" where
  "match_here s =
     (if prefix ''instagram.com/p/'' s then
        (let g = takeWhile (\<lambda>c. c \<noteq> CHR ''/'') (drop 16 s)
         in if g = [] then None else Some g)
      else None)"

fun re_search :: "string \<Rightarrow> string option" where
  "re_search [] = match_here []"
| "re_search (c # cs) =
     (case match_here (c # cs) of
        Some g \<Rightarrow> Some g
      | None \<Rightarrow> re_search cs)"

definition extract_shortcode_from_url :: "string \<Rightarrow> exn + string" where
  "extract_shortcode_from_url url =
     (case re_search url of
        Some g \<Rightarrow> Inr g
      | None \<Rightarrow> Inl (ValueError url))"

text \<open>
  For stating what the parser accepts: \<open>starts_post_path s\<close> says that \<open>s\<close> begins with the
  literal text \<^verbatim>\<open>instagram.com/p/\<close> followed by a character that is not a slash.
\<close>

definition starts_post_path :: "string \<Rightarrow> bool" where
  "starts_post_path s \<longleftrightarrow>
     (\<exists>c r. s = ''instagram.com/p/'' @ c # r \<and> c \<noteq> CHR ''/'')"

text \<open>
  A notion of the specification, not of the code: the host of a URL is the text between the
  scheme separator \<^verbatim>\<open>://\<close> (when there is one) and the next slash.
\<close>

fun after_scheme :: "string \<Rightarrow> string option" where
  "after_scheme (a # b # c # s) =
     (if a = CHR '':'' \<and> b = CHR ''/'' \<and> c = CHR ''/'' then Some s else after_scheme (b # c # s))"
| "after_scheme s = None"

definition url_host :: "string \<Rightarrow> string" where
  "url_host url =
     takeWhile (\<lambda>c. c \<noteq> CHR ''/'') (case after_scheme url of Some s \<Rightarrow> s | None \<Rightarrow> url)"

section \<open>Strings\<close>

text \<open>
  Strings are byte strings; the model is about ASCII text.  \<^verbatim>\<open>str.strip()\<close> removes leading and
  trailing whitespace, which in ASCII is the characters 9 to 13, 28 to 31 and the space.
  \<^verbatim>\<open>a in b\<close> on strings is the contiguous-substring test, \<^const>\<open>sublist\<close>;
  \<^verbatim>\<open>s.endswith((e1, ..., en))\<close> holds when one of the given suffixes ends \<open>s\<close>.
\<close>

definition isspace :: "char \<Rightarrow> bool" where
  "isspace c = (let n = (of_char c :: nat) in (9 \<le> n \<and> n \<le> 13) \<or> (28 \<le> n \<and> n \<le> 32))"

definition strip :: "string \<Rightarrow> string" where
  "strip s = rev (dropWhile isspace (rev (dropWhile isspace s)))"

definition endswith :: "string \<Rightarrow> string list \<Rightarrow> bool" where
  "endswith s sufs = list_ex (\<lambda>e. suffix e s) sufs"

section \<open>File system\<close>

text \<open>
  The part of the file system below the working directory that the program touches through
  \<^verbatim>\<open>os\<close> and \<^verbatim>\<open>shutil\<close>: a finite list of entries, each a path (relative to the working
  directory, exactly as the program spells it) with the kind of node there.  The order of the
  list is the order in which \<^verbatim>\<open>os.listdir\<close> reports names, which the operating system leaves
  arbitrary.  The working directory itself is the path \<open>[]\<close> and always exists.

  Scope: POSIX path rules, no symbolic links, no permission or disk errors, and path
  components \<^verbatim>\<open>.\<close> and \<^verbatim>\<open>..\<close> are not resolved.  File contents are not modelled.
\<close>

datatype node = File | Dir

type_synonym filesystem = "(string \<times> node) list"

definition path_exists :: "filesystem \<Rightarrow> string \<Rightarrow> bool" where
  "path_exists fs p \<longleftrightarrow> p \<in> fst ` set fs"

definition isdir :: "filesystem \<Rightarrow> string \<Rightarrow> bool" where
  "isdir fs p \<longleftrightarrow> (p, Dir) \<in> set fs"

definition isfile :: "filesystem \<Rightarrow> string \<Rightarrow> bool" where
  "isfile fs p \<longleftrightarrow> (p, File) \<in> set fs"

text \<open>
  \<^verbatim>\<open>posixpath.join(a, b)\<close>: an absolute second part replaces the first; otherwise the parts are
  joined with one slash, unless the first is empty or already ends with a slash.
\<close>

definition os_path_join :: "string \<Rightarrow> string \<Rightarrow> string" where
  "os_path_join a b =
     (if b \<noteq> [] \<and> hd b = CHR ''/'' then b
      else if a = [] \<or> last a = CHR ''/'' then a @ b
      else a @ CHR ''/'' # b)"

text \<open>
  \<^verbatim>\<open>posixpath.split(p)\<close>: the tail is the text after the last slash; the head is the text up to
  and including it, with trailing slashes removed unless it consists of slashes only.
\<close>

definition path_split :: "string \<Rightarrow> string \<times> string" where
  "path_split p =
     (let tail = rev (takeWhile (\<lambda>c. c \<noteq> CHR ''/'') (rev p));
          head = take (length p - length tail) p
      in (if head \<noteq> [] \<and> \<not> list_all (\<lambda>c. c = CHR ''/'') head
          then rev (dropWhile (\<lambda>c. c = CHR ''/'') (rev head))
          else head,
          tail))"

definition dirname :: "string \<Rightarrow> string" where
  "dirname p = fst (path_split p)"

definition basename :: "string \<Rightarrow> string" where
  "basename p = snd (path_split p)"

text \<open>\<^verbatim>\<open>shutil._basename\<close>: the base name after trailing slashes are removed.\<close>

definition shutil_basename :: "string \<Rightarrow> string" where
  "shutil_basename p = basename (rev (dropWhile (\<lambda>c. c = CHR ''/'') (rev p)))"

text \<open>
  The directory that is to hold \<open>p\<close> must exist and be a directory; a path without a slash
  lies in the working directory.
\<close>

definition check_parent :: "filesystem \<Rightarrow> string \<Rightarrow> exn option" where
  "check_parent fs p =
     (let d = dirname p
      in if d = [] \<or> isdir fs d then None
         else if path_exists fs d then Some NotADirectoryError
         else Some FileNotFoundError)"

definition os_mkdir :: "filesystem \<Rightarrow> string \<Rightarrow> exn + filesystem" where
  "os_mkdir fs p =
     (if p = [] then Inl FileNotFoundError
      else if path_exists fs p then Inl FileExistsError
      else (case check_parent fs p of
              Some e \<Rightarrow> Inl e
            | None \<Rightarrow> Inr ((p, Dir) # fs)))"

text \<open>
  \<^verbatim>\<open>os.makedirs(name, exist_ok)\<close>, after the library's source: split off the last
  component (once more when the name ends with a slash); when the head is missing, create it
  first, ignoring \<open>FileExistsError\<close> from that call; then \<^verbatim>\<open>mkdir(name)\<close>, whose error is
  raised unless \<^verbatim>\<open>exist_ok\<close> is set and the name is a directory.  An exception may leave
  directories created so far, so the file system is returned in both cases.
\<close>

definition makedirs_head :: "string \<Rightarrow> string" where
  "makedirs_head name =
     (if snd (path_split name) = [] then fst (path_split (fst (path_split name)))
      else fst (path_split name))"

definition makedirs_tail :: "string \<Rightarrow> string" where
  "makedirs_tail name =
     (if snd (path_split name) = [] then snd (path_split (fst (path_split name)))
      else snd (path_split name))"

definition mkdir_exist_ok :: "filesystem \<Rightarrow> string \<Rightarrow> bool \<Rightarrow> exn option \<times> filesystem" where
  "mkdir_exist_ok fs name exist_ok =
     (case os_mkdir fs name of
        Inr fs' \<Rightarrow> (None, fs')
      | Inl e \<Rightarrow> if \<not> exist_ok \<or> \<not> isdir fs name then (Some e, fs) else (None, fs))"

function makedirs :: "filesystem \<Rightarrow> string \<Rightarrow> bool \<Rightarrow> exn option \<times> filesystem" where
  "makedirs fs name exist_ok =
     (if makedirs_head name \<noteq> [] \<and> makedirs_tail name \<noteq> [] \<and>
         \<not> path_exists fs (makedirs_head name)
      then (case makedirs fs (makedirs_head name) exist_ok of
              (None, fs1) \<Rightarrow>
                if makedirs_tail name = ''.'' then (None, fs1)
                else mkdir_exist_ok fs1 name exist_ok
            | (Some e, fs1) \<Rightarrow>
                if e = FileExistsError
                then (if makedirs_tail name = ''.'' then (None, fs1)
                      else mkdir_exist_ok fs1 name exist_ok)
                else (Some e, fs1))
      else mkdir_exist_ok fs name exist_ok)"
  by pat_completeness auto

termination makedirs
proof (relation "measure (\<lambda>(fs, name, exist_ok). length name)", goal_cases)
  case 1
  show ?case by simp
next
  case (2 fs name exist_ok)
  have split_le: "length (fst (path_split p)) + length (snd (path_split p)) \<le> length p" for p
  proof -
    define t where "t = rev (takeWhile (\<lambda>c. c \<noteq> CHR ''/'') (rev p))"
    define h where "h = take (length p - length t) p"
    have t: "length t \<le> length p"
      unfolding t_def by (metis length_rev length_takeWhile_le)
    have h: "length h + length t \<le> length p"
      unfolding h_def using t by simp
    have "length (rev (dropWhile (\<lambda>c. c = CHR ''/'') (rev h))) \<le> length h"
      by (metis length_dropWhile_le length_rev)
    then have "length (fst (path_split p)) \<le> length h"
      unfolding path_split_def Let_def t_def[symmetric] h_def[symmetric] by simp
    moreover have "snd (path_split p) = t"
      unfolding path_split_def Let_def t_def[symmetric] by simp
    ultimately show ?thesis using h by simp
  qed
  have pos: "0 < length (makedirs_tail name)" using 2 by simp
  have "length (makedirs_head name) + length (makedirs_tail name) \<le> length name"
  proof (cases "snd (path_split name) = []")
    case True
    then have "length (makedirs_head name) + length (makedirs_tail name)
                 \<le> length (fst (path_split name))"
      unfolding makedirs_head_def makedirs_tail_def
      using split_le[of "fst (path_split name)"] by simp
    moreover have "length (fst (path_split name)) \<le> length name"
      using split_le[of name] by simp
    ultimately show ?thesis by linarith
  next
    case False
    then show ?thesis
      unfolding makedirs_head_def makedirs_tail_def using split_le[of name] by simp
  qed
  then have "length (makedirs_head name) < length name" using pos by linarith
  then show ?case by simp
qed

declare makedirs.simps [simp del]

text \<open>
  \<^verbatim>\<open>os.listdir(d)\<close>: the names of the entries directly inside \<open>d\<close>, each once.  A missing
  directory and a path that is not a directory raise.
\<close>

definition child_name :: "string \<Rightarrow> string \<Rightarrow> string option" where
  "child_name d k =
     (if prefix (d @ ''/'') k
      then (let n = drop (length d + 1) k
            in if n \<noteq> [] \<and> CHR ''/'' \<notin> set n then Some n else None)
      else None)"

definition os_listdir :: "filesystem \<Rightarrow> string \<Rightarrow> exn + string list" where
  "os_listdir fs d =
     (if isdir fs d then Inr (remdups (List.map_filter (child_name d) (map fst fs)))
      else if path_exists fs d then Inl NotADirectoryError
      else Inl FileNotFoundError)"

text \<open>\<open>under d k\<close>: the path \<open>k\<close> is \<open>d\<close> itself or lies below it.\<close>

definition under :: "string \<Rightarrow> string \<Rightarrow> bool" where
  "under d k \<longleftrightarrow> k = d \<or> prefix (d @ ''/'') k"

text \<open>\<^verbatim>\<open>shutil.rmtree(p)\<close> removes the directory \<open>p\<close> with everything below it.\<close>

definition shutil_rmtree :: "filesystem \<Rightarrow> string \<Rightarrow> exn + filesystem" where
  "shutil_rmtree fs p =
     (if isdir fs p then Inr (filter (\<lambda>(k, n). \<not> under p k) fs)
      else if path_exists fs p then Inl NotADirectoryError
      else Inl FileNotFoundError)"

text \<open>
  \<^verbatim>\<open>os.rename(src, dst)\<close> under POSIX rules.  The source must exist and the directory that is
  to hold the destination must be a directory.  A file replaces an existing file but not a
  directory; a directory replaces only an empty directory and cannot move into itself.  On
  success the source and everything below it reappear at the destination.
\<close>

definition relocate_key :: "string \<Rightarrow> string \<Rightarrow> string \<Rightarrow> string" where
  "relocate_key src dst k =
     (if k = src then dst
      else if prefix (src @ ''/'') k then dst @ drop (length src) k
      else k)"

definition relocate :: "filesystem \<Rightarrow> string \<Rightarrow> string \<Rightarrow> filesystem" where
  "relocate fs src dst =
     map (\<lambda>(k, n). (relocate_key src dst k, n)) (filter (\<lambda>(k, n). \<not> under dst k) fs)"

definition os_rename :: "filesystem \<Rightarrow> string \<Rightarrow> string \<Rightarrow> exn + filesystem" where
  "os_rename fs src dst =
     (if \<not> path_exists fs src then Inl FileNotFoundError
      else (case check_parent fs dst of
              Some e \<Rightarrow> Inl e
            | None \<Rightarrow>
                if src = dst then Inr fs
                else if under src dst \<or> under dst src then Inl OSError
                else if isdir fs dst then
                  (if \<not> isdir fs src then Inl IsADirectoryError
                   else if list_ex (\<lambda>(k, n). prefix (dst @ ''/'') k) fs then Inl OSError
                   else Inr (relocate fs src dst))
                else if path_exists fs dst \<and> isdir fs src then Inl NotADirectoryError
                else Inr (relocate fs src dst)))"

text \<open>
  \<^verbatim>\<open>shutil.move(src, dst)\<close>: when the destination is an existing directory the source moves
  into it under its own base name, which must be free there; otherwise the move is
  \<^verbatim>\<open>os.rename\<close>.  The copy-and-delete fallback that \<^verbatim>\<open>shutil.move\<close> takes when \<^verbatim>\<open>os.rename\<close>
  raises is for another device; here an error of the rename is the error of the move.
\<close>

definition shutil_move :: "filesystem \<Rightarrow> string \<Rightarrow> string \<Rightarrow> exn + filesystem" where
  "shutil_move fs src dst =
     (if isdir fs dst then
        (let real_dst = os_path_join dst (shutil_basename src)
         in if path_exists fs real_dst then Inl ShutilError
            else os_rename fs src real_dst)
      else os_rename fs src dst)"

text \<open>
  Opening a path for writing or for appending creates a regular file there when there is
  none, and keeps the one that is there.
\<close>

definition write_file :: "filesystem \<Rightarrow> string \<Rightarrow> exn + filesystem" where
  "write_file fs p =
     (if p = [] then Inl FileNotFoundError
      else if isdir fs p then Inl IsADirectoryError
      else (case check_parent fs p of
              Some e \<Rightarrow> Inl e
            | None \<Rightarrow> Inr (if path_exists fs p then fs else (p, File) # fs)))"

section \<open>Dedup checker\<close>

text \<open>
  The loop \<^verbatim>\<open>for filename in os.listdir(d): if shortcode in filename: return True\<close>, which
  the source repeats for each flat directory, guarded by \<^verbatim>\<open>os.path.exists(d)\<close>.
\<close>

fun any_contains :: "string \<Rightarrow> string list \<Rightarrow> bool" where
  "any_contains shortcode [] = False"
| "any_contains shortcode (filename # rest) =
     (if sublist shortcode filename then True else any_contains shortcode rest)"

definition scan_dir :: "filesystem \<Rightarrow> string \<Rightarrow> string \<Rightarrow> exn + bool" where
  "scan_dir fs dir shortcode =
     (if path_exists fs dir then
        (case os_listdir fs dir of
           Inl e \<Rightarrow> Inl e
         | Inr names \<Rightarrow> Inr (any_contains shortcode names))
      else Inr False)"

text \<open>
  \<^verbatim>\<open>is_already_downloaded(shortcode, base_dir, post_type=None)\<close>.  The type hint is \<open>None\<close> or
  a string; a string other than the three known ones falls through to the check of all
  locations, as in the source.
\<close>

definition is_already_downloaded ::
    "filesystem \<Rightarrow> string \<Rightarrow> string \<Rightarrow> string option \<Rightarrow> exn + bool" where
  "is_already_downloaded fs shortcode base_dir post_type =
     (if post_type = Some ''album'' then
        Inr (path_exists fs (os_path_join (os_path_join base_dir ''albums'') shortcode))
      else if post_type = Some ''image'' then
        scan_dir fs (os_path_join base_dir ''individual_images'') shortcode
      else if post_type = Some ''video'' then
        scan_dir fs (os_path_join base_dir ''individual_videos'') shortcode
      else if path_exists fs (os_path_join (os_path_join base_dir ''albums'') shortcode) then
        Inr True
      else
        (case scan_dir fs (os_path_join base_dir ''individual_images'') shortcode of
           Inl e \<Rightarrow> Inl e
         | Inr True \<Rightarrow> Inr True
         | Inr False \<Rightarrow>
             (case scan_dir fs (os_path_join base_dir ''individual_videos'') shortcode of
                Inl e \<Rightarrow> Inl e
              | Inr True \<Rightarrow> Inr True
              | Inr False \<Rightarrow> Inr False)))"

section \<open>The fetch library\<close>

text \<open>
  What \<^verbatim>\<open>instaloader\<close> answers for a shortcode.  \<^verbatim>\<open>Post.from_shortcode\<close> raises (\<open>None\<close>) or
  gives a post with its type name and video flag; \<^verbatim>\<open>download_post\<close> writes the listed files
  into the target directory, in order, and then either returns or raises.
\<close>

record post =
  post_typename :: string
  post_is_video :: bool
  post_files :: "string list"
  post_download_raises :: bool

fun write_files :: "filesystem \<Rightarrow> string \<Rightarrow> string list \<Rightarrow> exn option \<times> filesystem" where
  "write_files fs target [] = (None, fs)"
| "write_files fs target (filename # rest) =
     (case write_file fs (os_path_join target filename) of
        Inl e \<Rightarrow> (Some e, fs)
      | Inr fs' \<Rightarrow> write_files fs' target rest)"

definition download_post :: "filesystem \<Rightarrow> post \<Rightarrow> string \<Rightarrow> exn option \<times> filesystem" where
  "download_post fs p target =
     (case write_files fs target (post_files p) of
        (Some e, fs') \<Rightarrow> (Some e, fs')
      | (None, fs') \<Rightarrow> if post_download_raises p then (Some RemoteError, fs') else (None, fs'))"

section \<open>File placer\<close>

definition base_dir :: string where
  "base_dir = ''instagram-downloads''"

definition individual_images_dir :: string where
  "individual_images_dir = os_path_join base_dir ''individual_images''"

definition individual_videos_dir :: string where
  "individual_videos_dir = os_path_join base_dir ''individual_videos''"

definition albums_dir :: string where
  "albums_dir = os_path_join base_dir ''albums''"

text \<open>The two loops over \<^verbatim>\<open>os.listdir(temp_dir)\<close>; an exception of a move ends the loop.\<close>

fun move_album_files ::
    "filesystem \<Rightarrow> string \<Rightarrow> string \<Rightarrow> string list \<Rightarrow> exn option \<times> filesystem" where
  "move_album_files fs temp_dir album_subdir [] = (None, fs)"
| "move_album_files fs temp_dir album_subdir (filename # rest) =
     (if endswith filename [''.jpg'', ''.jpeg'', ''.png'', ''.mp4''] then
        (case shutil_move fs (os_path_join temp_dir filename) (os_path_join album_subdir filename) of
           Inl e \<Rightarrow> (Some e, fs)
         | Inr fs' \<Rightarrow> move_album_files fs' temp_dir album_subdir rest)
      else move_album_files fs temp_dir album_subdir rest)"

fun move_single_files ::
    "filesystem \<Rightarrow> string \<Rightarrow> bool \<Rightarrow> string list \<Rightarrow> exn option \<times> filesystem" where
  "move_single_files fs temp_dir is_video [] = (None, fs)"
| "move_single_files fs temp_dir is_video (filename # rest) =
     (if endswith filename [''.jpg'', ''.jpeg'', ''.png''] \<and> \<not> is_video then
        (case shutil_move fs (os_path_join temp_dir filename)
                (os_path_join individual_images_dir filename) of
           Inl e \<Rightarrow> (Some e, fs)
         | Inr fs' \<Rightarrow> move_single_files fs' temp_dir is_video rest)
      else if endswith filename [''.mp4''] then
        (case shutil_move fs (os_path_join temp_dir filename)
                (os_path_join individual_videos_dir filename) of
           Inl e \<Rightarrow> (Some e, fs)
         | Inr fs' \<Rightarrow> move_single_files fs' temp_dir is_video rest)
      else move_single_files fs temp_dir is_video rest)"

text \<open>
  The block ``move files to appropriate directories'' of \<^verbatim>\<open>main\<close>, as a function of the
  variables it reads.
\<close>

definition place ::
    "filesystem \<Rightarrow> string \<Rightarrow> string \<Rightarrow> bool \<Rightarrow> bool \<Rightarrow> exn option \<times> filesystem" where
  "place fs temp_dir shortcode is_album is_video =
     (if is_album then
        (case makedirs fs (os_path_join albums_dir shortcode) True of
           (Some e, fs1) \<Rightarrow> (Some e, fs1)
         | (None, fs1) \<Rightarrow>
             (case os_listdir fs1 temp_dir of
                Inl e \<Rightarrow> (Some e, fs1)
              | Inr names \<Rightarrow>
                  move_album_files fs1 temp_dir (os_path_join albums_dir shortcode) names))
      else
        (case os_listdir fs temp_dir of
           Inl e \<Rightarrow> (Some e, fs)
         | Inr names \<Rightarrow> move_single_files fs temp_dir is_video names))"

section \<open>Download orchestrator\<close>

text \<open>
  What the loop does that is visible from outside: the log lines with the URL or shortcode
  they carry, the pauses, and the calls of the fetch library.
\<close>

datatype event =
    LogSkipping string
  | Sleep int
  | FromShortcode string
  | LogDownloading int int string
  | DownloadPost string string
  | SuccessLog string
  | LogFinished string
  | LogError string exn

record state =
  disk :: filesystem
  processed :: int
  skipped :: int
  failed :: int
  trace :: "event list"

text \<open>
  The statements of the \<^verbatim>\<open>try\<close> block after the dedup check, in four steps, each of which
  continues with the next.  A result carries the exception that ended the block, if any, and
  the state reached.

  Last step: remove the temporary directory and write the two log lines of a finished
  download.
\<close>

definition clean_up_and_log ::
    "string \<Rightarrow> string \<Rightarrow> string \<Rightarrow> state \<Rightarrow> filesystem \<Rightarrow> exn option \<times> state" where
  "clean_up_and_log url shortcode temp_dir s fs3 =
     (case shutil_rmtree fs3 temp_dir of
        Inl e \<Rightarrow> (Some e, s\<lparr>disk := fs3\<rparr>)
      | Inr fs4 \<Rightarrow>
          (None, s\<lparr>disk := fs4, trace := trace s @ [SuccessLog url, LogFinished shortcode]\<rparr>))"

text \<open>Third step: classify the post and move its files.\<close>

definition classify_and_place ::
    "string \<Rightarrow> string \<Rightarrow> string \<Rightarrow> post \<Rightarrow> state \<Rightarrow> filesystem \<Rightarrow> exn option \<times> state" where
  "classify_and_place url shortcode temp_dir p s fs2 =
     (let is_album = (post_typename p = ''GraphSidecar'');
          is_video = post_is_video p
      in case place fs2 temp_dir shortcode is_album is_video of
           (Some e, fs3) \<Rightarrow> (Some e, s\<lparr>disk := fs3\<rparr>)
         | (None, fs3) \<Rightarrow> clean_up_and_log url shortcode temp_dir s fs3)"

text \<open>Second step: create the temporary directory and download the post into it.\<close>

definition download_to_temp ::
    "int \<Rightarrow> string \<Rightarrow> string \<Rightarrow> post \<Rightarrow> state \<Rightarrow> exn option \<times> state" where
  "download_to_temp total_urls url shortcode p s =
     (let temp_dir = ''temp_'' @ shortcode
      in case makedirs (disk s) temp_dir True of
           (Some e, fs1) \<Rightarrow> (Some e, s\<lparr>disk := fs1\<rparr>)
         | (None, fs1) \<Rightarrow>
             (let s3 = s\<lparr>disk := fs1,
                         trace := trace s @
                           [LogDownloading (processed s) total_urls url,
                            DownloadPost shortcode temp_dir]\<rparr>
              in case download_post fs1 p temp_dir of
                   (Some e, fs2) \<Rightarrow> (Some e, s3\<lparr>disk := fs2\<rparr>)
                 | (None, fs2) \<Rightarrow> classify_and_place url shortcode temp_dir p s3 fs2))"

text \<open>
  First step: the pause before every request but the first (\<^verbatim>\<open>time.sleep\<close> raises
  \<open>ValueError\<close> for a negative length), and the request for the post.
\<close>

definition download_and_place ::
    "int \<Rightarrow> (string \<Rightarrow> post option) \<Rightarrow> int \<Rightarrow> string \<Rightarrow> string \<Rightarrow> state
       \<Rightarrow> exn option \<times> state" where
  "download_and_place delay remote total_urls url shortcode s =
     (if processed s > 1 \<and> delay < 0 then
        (Some (ValueError ''sleep length must be non-negative''), s)
      else
        (let s1 = (if processed s > 1 then s\<lparr>trace := trace s @ [Sleep delay]\<rparr> else s);
             s2 = s1\<lparr>trace := trace s1 @ [FromShortcode shortcode]\<rparr>
         in case remote shortcode of
              None \<Rightarrow> (Some RemoteError, s2)
            | Some p \<Rightarrow> download_to_temp total_urls url shortcode p s2))"

text \<open>The \<^verbatim>\<open>except Exception\<close> clause of the loop.\<close>

definition on_exception :: "string \<Rightarrow> exn \<Rightarrow> state \<Rightarrow> state" where
  "on_exception url e s = s\<lparr>failed := failed s + 1, trace := trace s @ [LogError url e]\<rparr>"

text \<open>One iteration of the loop for a non-blank line, already stripped.\<close>

definition process_url ::
    "int \<Rightarrow> (string \<Rightarrow> post option) \<Rightarrow> int \<Rightarrow> string \<Rightarrow> state \<Rightarrow> state" where
  "process_url delay remote total_urls url s =
     (case extract_shortcode_from_url url of
        Inl e \<Rightarrow> on_exception url e s
      | Inr shortcode \<Rightarrow>
          (let s1 = s\<lparr>processed := processed s + 1\<rparr>
           in case is_already_downloaded (disk s1) shortcode base_dir None of
                Inl e \<Rightarrow> on_exception url e s1
              | Inr True \<Rightarrow>
                  s1\<lparr>trace := trace s1 @ [LogSkipping url], skipped := skipped s1 + 1\<rparr>
              | Inr False \<Rightarrow>
                  (case download_and_place delay remote total_urls url shortcode s1 of
                     (Some e, s2) \<Rightarrow> on_exception url e s2
                   | (None, s2) \<Rightarrow> s2)))"

fun process_lines ::
    "int \<Rightarrow> (string \<Rightarrow> post option) \<Rightarrow> int \<Rightarrow> string list \<Rightarrow> state \<Rightarrow> state" where
  "process_lines delay remote total_urls [] s = s"
| "process_lines delay remote total_urls (line # rest) s =
     (if strip line = [] then process_lines delay remote total_urls rest s
      else process_lines delay remote total_urls rest
             (process_url delay remote total_urls (strip line) s))"

section \<open>Setup and summary\<close>

record args =
  arg_proxy :: "string option"
  arg_delay :: int
  arg_skip_proxy_test :: bool
  arg_no_verify_ssl :: bool
  arg_cookies :: "string option"

text \<open>
  \<^verbatim>\<open>test_proxy\<close>: the request through the proxy answers with a status code or raises one of
  the exceptions of \<^verbatim>\<open>requests\<close> that the function catches; only status 200 is a success.
\<close>

datatype response = Status int | ProxyError | ConnectTimeout | SSLError | RequestException

definition test_proxy :: "(string \<Rightarrow> bool \<Rightarrow> response) \<Rightarrow> string \<Rightarrow> bool \<Rightarrow> bool" where
  "test_proxy http_get proxy_url verify_ssl =
     (case http_get proxy_url verify_ssl of
        Status status_code \<Rightarrow> status_code = 200
      | ProxyError \<Rightarrow> False
      | ConnectTimeout \<Rightarrow> False
      | SSLError \<Rightarrow> False
      | RequestException \<Rightarrow> False)"

text \<open>
  The surroundings of a run: the time at the start, as \<^verbatim>\<open>strftime('%Y%m%d_%H%M%S')\<close> prints it,
  the answer of a request through a proxy, the parsed content of a cookie file (a list of
  dictionaries; \<open>None\<close> when opening or parsing raises), the lines of \<^verbatim>\<open>instagram_urls.txt\<close>
  (\<open>None\<close> when it is not a regular file; otherwise the file is read as these lines), the fetch
  library, and the file system at the start.
\<close>

record world =
  w_timestamp :: string
  w_http_get :: "string \<Rightarrow> bool \<Rightarrow> response"
  w_cookie_file :: "string \<Rightarrow> (string \<times> string) list list option"
  w_input_file :: "string list option"
  w_remote :: "string \<Rightarrow> post option"
  w_disk :: filesystem

text \<open>
  \<^verbatim>\<open>setup_logging()\<close>, as far as it touches the file system: the directory \<^verbatim>\<open>logs\<close> is
  created when the path does not exist (\<^verbatim>\<open>os.makedirs\<close> without \<^verbatim>\<open>exist_ok\<close>); the file
  handler of the run's log opens \<^verbatim>\<open>logs/instagram_downloader_<timestamp>.log\<close>; the file
  handler of the success logger, which has no handler yet when \<^verbatim>\<open>main\<close> calls the function,
  opens \<^verbatim>\<open>logs/successful_downloads.log\<close>.  Both handlers open their file at once.
\<close>

definition setup_logging :: "filesystem \<Rightarrow> string \<Rightarrow> exn option \<times> filesystem" where
  "setup_logging fs timestamp =
     (case (if \<not> path_exists fs ''logs'' then makedirs fs ''logs'' False else (None, fs)) of
        (Some e, fs1) \<Rightarrow> (Some e, fs1)
      | (None, fs1) \<Rightarrow>
          (case write_file fs1 (''logs/instagram_downloader_'' @ timestamp @ ''.log'') of
             Inl e \<Rightarrow> (Some e, fs1)
           | Inr fs2 \<Rightarrow>
               (case write_file fs2 ''logs/successful_downloads.log'' of
                  Inl e \<Rightarrow> (Some e, fs2)
                | Inr fs3 \<Rightarrow> (None, fs3))))"

text \<open>A command-line string counts as given when it is present and not empty.\<close>

definition given :: "string option \<Rightarrow> string option" where
  "given x = (case x of None \<Rightarrow> None | Some v \<Rightarrow> if v = [] then None else Some v)"

text \<open>
  The \<^verbatim>\<open>try\<close> block that loads the cookies: every cookie needs the keys \<^verbatim>\<open>name\<close> and
  \<^verbatim>\<open>value\<close>.
\<close>

definition load_cookies ::
    "(string \<Rightarrow> (string \<times> string) list list option) \<Rightarrow> string \<Rightarrow> exn option" where
  "load_cookies cookie_file path =
     (case cookie_file path of
        None \<Rightarrow> Some OSError
      | Some cookies \<Rightarrow>
          if list_all (\<lambda>cookie. map_of cookie ''name'' \<noteq> None \<and> map_of cookie ''value'' \<noteq> None)
               cookies
          then None else Some KeyError)"

definition create_layout :: "filesystem \<Rightarrow> exn option \<times> filesystem" where
  "create_layout fs =
     (case makedirs fs individual_images_dir True of
        (Some e, fs1) \<Rightarrow> (Some e, fs1)
      | (None, fs1) \<Rightarrow>
          (case makedirs fs1 individual_videos_dir True of
             (Some e, fs2) \<Rightarrow> (Some e, fs2)
           | (None, fs2) \<Rightarrow> makedirs fs2 albums_dir True))"

text \<open>
  How a run ends: one of the three early returns of \<^verbatim>\<open>main\<close>, an exception that nothing
  catches, or the summary with its four numbers (total, succeeded, skipped, failed).
\<close>

datatype outcome =
    ProxyTestFailed
  | CookiesFailed exn
  | InputFileMissing
  | Crashed exn
  | Summary int int int int

definition initial_state :: "filesystem \<Rightarrow> state" where
  "initial_state fs = \<lparr>disk = fs, processed = 0, skipped = 0, failed = 0, trace = []\<rparr>"

text \<open>
  The proxy test is made when a proxy is given and the test is not skipped; the cookies are
  loaded when a cookie file is given.
\<close>

definition proxy_test_fails :: "args \<Rightarrow> world \<Rightarrow> bool" where
  "proxy_test_fails a w =
     (case given (arg_proxy a) of
        None \<Rightarrow> False
      | Some proxy_url \<Rightarrow>
          \<not> arg_skip_proxy_test a \<and>
          \<not> test_proxy (w_http_get w) proxy_url (\<not> arg_no_verify_ssl a))"

definition cookies_exception :: "args \<Rightarrow> world \<Rightarrow> exn option" where
  "cookies_exception a w =
     (case given (arg_cookies a) of
        None \<Rightarrow> None
      | Some path \<Rightarrow> load_cookies (w_cookie_file w) path)"

text \<open>Counting the URLs, the loop, and the summary.\<close>

definition count_and_process :: "args \<Rightarrow> world \<Rightarrow> filesystem \<Rightarrow> string list \<Rightarrow> outcome \<times> state" where
  "count_and_process a w fs1 lines =
     (let total_urls = int (length (filter (\<lambda>line. strip line \<noteq> []) lines));
          s = process_lines (arg_delay a) (w_remote w) total_urls lines (initial_state fs1)
      in (Summary total_urls (processed s - skipped s - failed s) (skipped s) (failed s), s))"

text \<open>
  \<^verbatim>\<open>main\<close>, after the arguments are parsed.  Logging is set up first; the proxy test, the
  loading of the cookies, the creation of the three directories and the check of the input
  file follow; an exception of \<^verbatim>\<open>setup_logging\<close> or \<^verbatim>\<open>os.makedirs\<close> is caught by nothing.
\<close>

definition main :: "args \<Rightarrow> world \<Rightarrow> outcome \<times> state" where
  "main a w =
     (case setup_logging (w_disk w) (w_timestamp w) of
        (Some e, fs0) \<Rightarrow> (Crashed e, initial_state fs0)
      | (None, fs0) \<Rightarrow>
          if proxy_test_fails a w then (ProxyTestFailed, initial_state fs0)
          else
            (case cookies_exception a w of
               Some e \<Rightarrow> (CookiesFailed e, initial_state fs0)
             | None \<Rightarrow>
                 (case create_layout fs0 of
                    (Some e, fs1) \<Rightarrow> (Crashed e, initial_state fs1)
                  | (None, fs1) \<Rightarrow>
                      (case w_input_file w of
                         None \<Rightarrow> (InputFileMissing, initial_state fs1)
                       | Some lines \<Rightarrow> count_and_process a w fs1 lines))))"

section \<open>Notions for stating the properties\<close>

text \<open>
  \<open>entries_of fs d\<close> is the set of names directly inside \<open>d\<close>; \<open>dir_hit fs d shortcode\<close> says that
  \<open>d\<close> is a directory holding a name that contains the shortcode; \<open>not_a_directory fs d\<close> says
  that \<open>d\<close> exists as something else than a directory.
\<close>

definition entries_of :: "filesystem \<Rightarrow> string \<Rightarrow> string set" where
  "entries_of fs d = {n. n \<noteq> [] \<and> CHR ''/'' \<notin> set n \<and> path_exists fs (d @ ''/'' @ n)}"

definition dir_hit :: "filesystem \<Rightarrow> string \<Rightarrow> string \<Rightarrow> bool" where
  "dir_hit fs d shortcode \<longleftrightarrow> isdir fs d \<and> (\<exists>n\<in>entries_of fs d. sublist shortcode n)"

definition not_a_directory :: "filesystem \<Rightarrow> string \<Rightarrow> bool" where
  "not_a_directory fs d \<longleftrightarrow> path_exists fs d \<and> \<not> isdir fs d"










text \<open>
  The event that closes the iteration of a URL (the skip message, the success log or the
  error message) carries that URL; \<open>error_event\<close> singles out the error messages.
\<close>

fun closing_url :: "event \<Rightarrow> string option" where
  "closing_url (LogSkipping url) = Some url"
| "closing_url (SuccessLog url) = Some url"
| "closing_url (LogError url e) = Some url"
| "closing_url (Sleep d) = None"
| "closing_url (FromShortcode shortcode) = None"
| "closing_url (LogDownloading i n url) = None"
| "closing_url (DownloadPost shortcode temp_dir) = None"
| "closing_url (LogFinished shortcode) = None"

fun error_event :: "event \<Rightarrow> bool" where
  "error_event (LogError url e) = True"
| "error_event (LogSkipping url) = False"
| "error_event (SuccessLog url) = False"
| "error_event (Sleep d) = False"
| "error_event (FromShortcode shortcode) = False"
| "error_event (LogDownloading i n url) = False"
| "error_event (DownloadPost shortcode temp_dir) = False"
| "error_event (LogFinished shortcode) = False"

section \<open>Example runs\<close>

text \<open>
  Surroundings for concrete runs: no proxy, no cookies, the default delay of three seconds,
  a start at midnight of 1 January 2024, and a given list of lines, fetch library and file
  system.
\<close>

definition plain_args :: args where
  "plain_args = \<lparr>arg_proxy = None, arg_delay = 3, arg_skip_proxy_test = False,
                   arg_no_verify_ssl = False, arg_cookies = None\<rparr>"

definition plain_world :: "string list \<Rightarrow> (string \<Rightarrow> post option) \<Rightarrow> filesystem \<Rightarrow> world" where
  "plain_world lines remote fs =
     \<lparr>w_timestamp = ''20240101_000000'',
      w_http_get = (\<lambda>proxy_url verify_ssl. Status 200), w_cookie_file = (\<lambda>path. None),
      w_input_file = Some lines, w_remote = remote, w_disk = fs\<rparr>"

text \<open>
  What \<^verbatim>\<open>setup_logging\<close> makes of an empty working directory at that time, and what the
  creation of the three directories adds.
\<close>

definition fresh_logs :: filesystem where
  "fresh_logs =
     [(''logs/successful_downloads.log'', File),
      (''logs/instagram_downloader_20240101_000000.log'', File),
      (''logs'', Dir)]"

definition fresh_layout :: filesystem where
  "fresh_layout =
     [(''instagram-downloads/albums'', Dir),
      (''instagram-downloads/individual_videos'', Dir),
      (''instagram-downloads/individual_images'', Dir),
      (''instagram-downloads'', Dir)] @ fresh_logs"

text \<open>
  A single-image post as the fetch library delivers it with its default file name pattern,
  which is built from the date of the post.
\<close>

definition image_post :: post where
  "image_post = \<lparr>post_typename = ''GraphImage'', post_is_video = False,
                   post_files = [''2024-01-01_00-00-00_UTC.jpg''], post_download_raises = False\<rparr>"

text \<open>A post whose download writes one file and then raises.\<close>

definition broken_post :: post where
  "broken_post = \<lparr>post_typename = ''GraphImage'', post_is_video = False,
                    post_files = [''a.jpg''], post_download_raises = True\<rparr>"






section \<open>Properties of the URL parser\<close>

lemma drop_lit: "drop 16 (''instagram.com/p/'' @ r) = r"
  by simp

lemma match_here_prefix:
  "match_here (''instagram.com/p/'' @ r) =
     (let g = takeWhile (\<lambda>c. c \<noteq> CHR ''/'') r in if g = [] then None else Some g)"
  unfolding match_here_def by (simp only: prefixI[OF refl] if_True drop_lit)

lemma match_here_not_prefix:
  "\<not> prefix ''instagram.com/p/'' s \<Longrightarrow> match_here s = None"
  unfolding match_here_def by (simp only: if_False)

lemma takeWhile_nonslash_Nil:
  "takeWhile (\<lambda>c. c \<noteq> CHR ''/'') r = [] \<longleftrightarrow> \<not> (\<exists>c r'. r = c # r' \<and> c \<noteq> CHR ''/'')"
  by (cases r) auto

lemma match_here_None_iff: "match_here s = None \<longleftrightarrow> \<not> starts_post_path s"
proof (cases "prefix ''instagram.com/p/'' s")
  case True
  then obtain r where r: "s = ''instagram.com/p/'' @ r" unfolding prefix_def by blast
  have "starts_post_path s \<longleftrightarrow> (\<exists>c r'. r = c # r' \<and> c \<noteq> CHR ''/'')"
    unfolding starts_post_path_def r by (simp only: same_append_eq)
  moreover have "match_here s = None \<longleftrightarrow> takeWhile (\<lambda>c. c \<noteq> CHR ''/'') r = []"
    unfolding r match_here_prefix Let_def by (simp only: option.simps split: if_splits) simp
  ultimately show ?thesis by (simp only: takeWhile_nonslash_Nil)
next
  case False
  then have "match_here s = None" by (rule match_here_not_prefix)
  moreover have "\<not> starts_post_path s"
    using False unfolding prefix_def starts_post_path_def by blast
  ultimately show ?thesis by blast
qed

lemma match_here_starts:
  assumes "starts_post_path s"
  shows "match_here s = Some (takeWhile (\<lambda>c. c \<noteq> CHR ''/'') (drop 16 s))"
proof -
  obtain c r where s: "s = ''instagram.com/p/'' @ c # r" and c: "c \<noteq> CHR ''/''"
    using assms unfolding starts_post_path_def by blast
  have "takeWhile (\<lambda>c. c \<noteq> CHR ''/'') (c # r) \<noteq> []" using c by simp
  then show ?thesis
    unfolding s match_here_prefix Let_def drop_lit by (simp only: if_False)
qed

lemma starts_post_path_length: "starts_post_path s \<Longrightarrow> 16 < length s"
proof -
  assume "starts_post_path s"
  then obtain c r where s: "s = ''instagram.com/p/'' @ c # r"
    unfolding starts_post_path_def by blast
  have "length ''instagram.com/p/'' = 16" by simp
  then show ?thesis unfolding s by (simp only: length_append) simp
qed


lemma re_search_None_iff:
  "re_search s = None \<longleftrightarrow> (\<forall>i\<le>length s. match_here (drop i s) = None)"
proof (induction s)
  case Nil
  then show ?case by simp
next
  case (Cons c cs)
  show ?case
  proof
    assume a: "re_search (c # cs) = None"
    then have h: "match_here (c # cs) = None" "re_search cs = None"
      by (auto split: option.splits)
    show "\<forall>i\<le>length (c # cs). match_here (drop i (c # cs)) = None"
    proof (intro allI impI)
      fix i assume "i \<le> length (c # cs)"
      then show "match_here (drop i (c # cs)) = None"
        using h Cons.IH by (cases i) auto
    qed
  next
    assume a: "\<forall>i\<le>length (c # cs). match_here (drop i (c # cs)) = None"
    then have "match_here (c # cs) = None" by (metis drop0 le0)
    moreover have "\<forall>i\<le>length cs. match_here (drop i cs) = None"
      using a by (metis Suc_le_mono drop_Suc_Cons length_Cons)
    ultimately show "re_search (c # cs) = None"
      using Cons.IH by simp
  qed
qed

lemma re_search_first:
  "match_here (drop i s) = Some g \<Longrightarrow> i \<le> length s \<Longrightarrow>
   \<forall>j<i. match_here (drop j s) = None \<Longrightarrow> re_search s = Some g"
proof (induction s arbitrary: i)
  case Nil
  then show ?case by simp
next
  case (Cons c cs)
  show ?case
  proof (cases i)
    case 0
    then show ?thesis using Cons.prems by simp
  next
    case (Suc k)
    then have "match_here (c # cs) = None" using Cons.prems(3) by (metis drop0 zero_less_Suc)
    moreover have "re_search cs = Some g"
      using Cons.IH[of k] Cons.prems Suc
      by (metis Suc_le_mono Suc_less_eq drop_Suc_Cons length_Cons)
    ultimately show ?thesis by simp
  qed
qed

lemma extract_first_occurrence:
  assumes "starts_post_path (drop i url)" and "\<forall>j<i. \<not> starts_post_path (drop j url)"
  shows "extract_shortcode_from_url url =
           Inr (takeWhile (\<lambda>c. c \<noteq> CHR ''/'') (drop (i + 16) url))"
proof -
  have len: "i \<le> length url"
    using starts_post_path_length[OF assms(1)] by simp
  have m: "match_here (drop i url) = Some (takeWhile (\<lambda>c. c \<noteq> CHR ''/'') (drop (i + 16) url))"
    using match_here_starts[OF assms(1)] by (simp add: add.commute)
  have "\<forall>j<i. match_here (drop j url) = None"
    using assms(2) by (simp add: match_here_None_iff)
  then have "re_search url = Some (takeWhile (\<lambda>c. c \<noteq> CHR ''/'') (drop (i + 16) url))"
    using re_search_first[OF m len] by blast
  then show ?thesis by (simp add: extract_shortcode_from_url_def)
qed

lemma extract_fails_iff:
  "extract_shortcode_from_url url = Inl (ValueError url) \<longleftrightarrow>
     \<not> (\<exists>i. starts_post_path (drop i url))"
proof -
  have "re_search url = None \<longleftrightarrow> \<not> (\<exists>i. starts_post_path (drop i url))"
  proof
    assume "re_search url = None"
    then have n: "\<forall>i\<le>length url. \<not> starts_post_path (drop i url)"
      by (simp add: re_search_None_iff match_here_None_iff)
    show "\<not> (\<exists>i. starts_post_path (drop i url))"
    proof
      assume "\<exists>i. starts_post_path (drop i url)"
      then obtain i where i: "starts_post_path (drop i url)" by blast
      then have "i \<le> length url" using starts_post_path_length[OF i] by simp
      with n i show False by blast
    qed
  next
    assume "\<not> (\<exists>i. starts_post_path (drop i url))"
    then show "re_search url = None"
      by (simp add: re_search_None_iff match_here_None_iff)
  qed
  then show ?thesis
    by (auto simp: extract_shortcode_from_url_def split: option.splits)
qed

lemma starts_at_decomp:
  "starts_post_path (drop i url) \<longleftrightarrow>
     (\<exists>p c r. url = p @ ''instagram.com/p/'' @ c # r \<and> c \<noteq> CHR ''/'' \<and> length p = i)"
proof
  assume "starts_post_path (drop i url)"
  then obtain c r where d: "drop i url = ''instagram.com/p/'' @ c # r" and c: "c \<noteq> CHR ''/''"
    unfolding starts_post_path_def by blast
  have "drop i url \<noteq> []" unfolding d by simp
  then have "i \<le> length url" by simp
  then have "url = take i url @ ''instagram.com/p/'' @ c # r \<and> length (take i url) = i"
    using d by (metis append_take_drop_id length_take min.absorb2)
  with c show "\<exists>p c r. url = p @ ''instagram.com/p/'' @ c # r \<and> c \<noteq> CHR ''/'' \<and> length p = i"
    by blast
next
  assume "\<exists>p c r. url = p @ ''instagram.com/p/'' @ c # r \<and> c \<noteq> CHR ''/'' \<and> length p = i"
  then obtain p c r where u: "url = p @ ''instagram.com/p/'' @ c # r" and c: "c \<noteq> CHR ''/''"
    and l: "length p = i" by blast
  have "drop i url = ''instagram.com/p/'' @ c # r" unfolding u using l by (simp only: append_eq_conv_conj drop_append) simp
  then show "starts_post_path (drop i url)"
    unfolding starts_post_path_def using c by blast
qed

lemma takeWhile_token:
  assumes "CHR ''/'' \<notin> set tok" and "rest = [] \<or> hd rest = CHR ''/''"
  shows "takeWhile (\<lambda>c. c \<noteq> CHR ''/'') (tok @ rest) = tok"
proof -
  have "takeWhile (\<lambda>c. c \<noteq> CHR ''/'') rest = []"
    using assms(2) by (cases rest) auto
  moreover have "\<forall>c\<in>set tok. c \<noteq> CHR ''/''" using assms(1) by blast
  ultimately show ?thesis by (simp add: takeWhile_append2)
qed

lemma drop_length_append: "drop (length p + 16) (p @ ''instagram.com/p/'' @ r) = r"
proof -
  have "drop (length p + 16) (p @ ''instagram.com/p/'' @ r) = drop 16 (''instagram.com/p/'' @ r)"
    by (simp only: drop_append length_append) simp
  then show ?thesis by (simp only: drop_lit)
qed

lemma post_path_has_p:
  "starts_post_path (drop i url) \<Longrightarrow> \<exists>p r. url = p @ ''/p/'' @ r"
proof -
  assume "starts_post_path (drop i url)"
  then obtain p c r where "url = p @ ''instagram.com/p/'' @ c # r"
    unfolding starts_at_decomp by blast
  then have "url = (p @ ''instagram.com'') @ ''/p/'' @ (c # r)" by simp
  then show ?thesis by blast
qed

lemma post_path_has_literal:
  "starts_post_path (drop i url) \<Longrightarrow> \<exists>p r. url = p @ ''instagram.com/p/'' @ r"
  unfolding starts_at_decomp by blast

text \<open>
  Claim C4, as amended.  When the URL contains \<^verbatim>\<open>instagram.com/p/<token>\<close>, the token being a
  non-empty run of non-slash characters that is followed by a slash or by the end of the
  string, and no earlier position of the URL starts such a text, the parser returns exactly
  the token.  A URL without any \<^verbatim>\<open>/p/\<close> segment makes it fail with \<open>ValueError\<close>.  The parser is a
  function of the URL alone: it reads and writes no state.
\<close>

theorem extract_shortcode_token:
  "(\<forall>pre tok rest.
       url = pre @ ''instagram.com/p/'' @ tok @ rest \<and> tok \<noteq> [] \<and> CHR ''/'' \<notin> set tok \<and>
       (rest = [] \<or> hd rest = CHR ''/'') \<and>
       (\<forall>j<length pre. \<not> starts_post_path (drop j url))
       \<longrightarrow> extract_shortcode_from_url url = Inr tok)
   \<and> ((\<nexists>p r. url = p @ ''/p/'' @ r) \<longrightarrow> extract_shortcode_from_url url = Inl (ValueError url))"
proof (intro conjI allI impI)
  fix pre tok rest
  assume a: "url = pre @ ''instagram.com/p/'' @ tok @ rest \<and> tok \<noteq> [] \<and> CHR ''/'' \<notin> set tok \<and>
       (rest = [] \<or> hd rest = CHR ''/'') \<and>
       (\<forall>j<length pre. \<not> starts_post_path (drop j url))"
  then obtain c t where tok: "tok = c # t" and c: "c \<noteq> CHR ''/''"
    by (cases tok) auto
  have u: "url = pre @ ''instagram.com/p/'' @ c # (t @ rest)" using a tok by simp
  have s: "starts_post_path (drop (length pre) url)"
    unfolding starts_at_decomp using u c by blast
  have "extract_shortcode_from_url url =
          Inr (takeWhile (\<lambda>c. c \<noteq> CHR ''/'') (drop (length pre + 16) url))"
    using extract_first_occurrence[OF s] a by blast
  moreover have "drop (length pre + 16) url = tok @ rest"
    using a drop_length_append[of pre "tok @ rest"] by simp
  ultimately show "extract_shortcode_from_url url = Inr tok"
    using takeWhile_token[of tok rest] a by simp
next
  assume "\<nexists>p r. url = p @ ''/p/'' @ r"
  then have "\<not> (\<exists>i. starts_post_path (drop i url))"
    using post_path_has_p by blast
  then show "extract_shortcode_from_url url = Inl (ValueError url)"
    using extract_fails_iff[of url] by blast
qed

text \<open>
  Claim C10, as amended.  The parser fails exactly when no position of the input starts with
  \<^verbatim>\<open>instagram.com/p/\<close> followed by a non-slash character; when it succeeds, it returns the
  maximal run of non-slash characters after the first such position.  Hence an input without
  the literal text \<^verbatim>\<open>instagram.com/p/\<close> fails even when it has a \<^verbatim>\<open>/p/<token>/\<close> segment, and a
  token that a query string follows directly is returned together with the query text (up to
  the next slash).
\<close>

theorem extract_shortcode_exact:
  "((\<exists>e. extract_shortcode_from_url url = Inl e) \<longleftrightarrow>
      \<not> (\<exists>p c r. url = p @ ''instagram.com/p/'' @ c # r \<and> c \<noteq> CHR ''/''))
   \<and> (\<forall>p c r. url = p @ ''instagram.com/p/'' @ c # r \<and> c \<noteq> CHR ''/'' \<and>
          (\<forall>j<length p. \<not> starts_post_path (drop j url))
          \<longrightarrow> extract_shortcode_from_url url = Inr (takeWhile (\<lambda>x. x \<noteq> CHR ''/'') (c # r)))
   \<and> ((\<nexists>p r. url = p @ ''instagram.com/p/'' @ r)
          \<longrightarrow> extract_shortcode_from_url url = Inl (ValueError url))
   \<and> (\<forall>p tok q. url = p @ ''instagram.com/p/'' @ tok @ CHR ''?'' # q \<and> tok \<noteq> [] \<and>
          CHR ''/'' \<notin> set tok \<and> (\<forall>j<length p. \<not> starts_post_path (drop j url))
          \<longrightarrow> extract_shortcode_from_url url =
                Inr (tok @ CHR ''?'' # takeWhile (\<lambda>x. x \<noteq> CHR ''/'') q))"
proof (intro conjI allI impI)
  have dec: "(\<exists>p c r. url = p @ ''instagram.com/p/'' @ c # r \<and> c \<noteq> CHR ''/'') \<longleftrightarrow>
             (\<exists>i. starts_post_path (drop i url))"
    unfolding starts_at_decomp by blast
  show "(\<exists>e. extract_shortcode_from_url url = Inl e) \<longleftrightarrow>
      \<not> (\<exists>p c r. url = p @ ''instagram.com/p/'' @ c # r \<and> c \<noteq> CHR ''/'')"
    unfolding dec extract_fails_iff[symmetric]
    by (auto simp: extract_shortcode_from_url_def split: option.splits)
next
  fix p c r
  assume a: "url = p @ ''instagram.com/p/'' @ c # r \<and> c \<noteq> CHR ''/'' \<and>
          (\<forall>j<length p. \<not> starts_post_path (drop j url))"
  have s: "starts_post_path (drop (length p) url)"
    unfolding starts_at_decomp using a by blast
  have "extract_shortcode_from_url url =
          Inr (takeWhile (\<lambda>c. c \<noteq> CHR ''/'') (drop (length p + 16) url))"
    using extract_first_occurrence[OF s] a by blast
  moreover have "drop (length p + 16) url = c # r"
    using a drop_length_append[of p "c # r"] by simp
  ultimately show "extract_shortcode_from_url url = Inr (takeWhile (\<lambda>x. x \<noteq> CHR ''/'') (c # r))"
    by simp
next
  assume "\<nexists>p r. url = p @ ''instagram.com/p/'' @ r"
  then have "\<not> (\<exists>i. starts_post_path (drop i url))"
    using post_path_has_literal by blast
  then show "extract_shortcode_from_url url = Inl (ValueError url)"
    using extract_fails_iff[of url] by blast
next
  fix p tok q
  assume a: "url = p @ ''instagram.com/p/'' @ tok @ CHR ''?'' # q \<and> tok \<noteq> [] \<and>
          CHR ''/'' \<notin> set tok \<and> (\<forall>j<length p. \<not> starts_post_path (drop j url))"
  then obtain c t where tok: "tok = c # t" and c: "c \<noteq> CHR ''/''"
    by (cases tok) auto
  have u: "url = p @ ''instagram.com/p/'' @ c # (t @ CHR ''?'' # q)" using a tok by simp
  have s: "starts_post_path (drop (length p) url)"
    unfolding starts_at_decomp using u c by blast
  have "extract_shortcode_from_url url =
          Inr (takeWhile (\<lambda>c. c \<noteq> CHR ''/'') (drop (length p + 16) url))"
    using extract_first_occurrence[OF s] a by blast
  moreover have "drop (length p + 16) url = tok @ CHR ''?'' # q"
    using a drop_length_append[of p "tok @ CHR ''?'' # q"] by simp
  moreover have "takeWhile (\<lambda>x. x \<noteq> CHR ''/'') (tok @ CHR ''?'' # q) =
                 tok @ CHR ''?'' # takeWhile (\<lambda>x. x \<noteq> CHR ''/'') q"
  proof -
    have "\<forall>x\<in>set tok. x \<noteq> CHR ''/''" using a by blast
    then show ?thesis by (simp add: takeWhile_append2)
  qed
  ultimately show "extract_shortcode_from_url url =
                Inr (tok @ CHR ''?'' # takeWhile (\<lambda>x. x \<noteq> CHR ''/'') q)"
    by simp
qed

text \<open>
  Claim C4 as stated fails: this URL has the segment \<^verbatim>\<open>/p/abc/\<close>, and the parser raises.
\<close>

theorem extract_shortcode_token_counterexample:
  "extract_shortcode_from_url (''https://example.com'' @ ''/p/'' @ ''abc'' @ ''/'')
     = Inl (ValueError ''https://example.com/p/abc/'')"
  by (simp add: extract_shortcode_from_url_def match_here_def)

text \<open>
  Claim C4, as amended, at concrete URLs: with and without the trailing slash, and without a
  \<^verbatim>\<open>/p/\<close> segment.
\<close>

theorem extract_shortcode_token_witness:
  "extract_shortcode_from_url ''https://www.instagram.com/p/ShortCode/'' = Inr ''ShortCode''
   \<and> extract_shortcode_from_url ''https://www.instagram.com/p/ShortCode'' = Inr ''ShortCode''
   \<and> (\<nexists>p r. ''https://www.instagram.com/reel/x/'' = p @ ''/p/'' @ r)
   \<and> extract_shortcode_from_url ''https://www.instagram.com/reel/x/''
       = Inl (ValueError ''https://www.instagram.com/reel/x/'')"
proof -
  have f1: "\<forall>j<length ''https://www.''.
              \<not> starts_post_path (drop j ''https://www.instagram.com/p/ShortCode/'')"
    unfolding starts_post_path_def by (simp add: All_less_Suc numeral_eq_Suc)
  have f2: "\<forall>j<length ''https://www.''.
              \<not> starts_post_path (drop j ''https://www.instagram.com/p/ShortCode'')"
    unfolding starts_post_path_def by (simp add: All_less_Suc numeral_eq_Suc)
  have n: "\<nexists>p r. ''https://www.instagram.com/reel/x/'' = p @ ''/p/'' @ r"
    by (auto simp: append_eq_Cons_conv Cons_eq_append_conv)
  have "extract_shortcode_from_url ''https://www.instagram.com/p/ShortCode/'' = Inr ''ShortCode''"
    using extract_shortcode_token[of "''https://www.instagram.com/p/ShortCode/''", THEN conjunct1,
        rule_format, of "''https://www.''" "''ShortCode''" "''/''"] f1
    by simp
  moreover have "extract_shortcode_from_url ''https://www.instagram.com/p/ShortCode'' = Inr ''ShortCode''"
    using extract_shortcode_token[of "''https://www.instagram.com/p/ShortCode''", THEN conjunct1,
        rule_format, of "''https://www.''" "''ShortCode''" "[]"] f2
    by simp
  moreover have "extract_shortcode_from_url ''https://www.instagram.com/reel/x/''
       = Inl (ValueError ''https://www.instagram.com/reel/x/'')"
    using extract_shortcode_token[of "''https://www.instagram.com/reel/x/''", THEN conjunct2] n
    by blast
  ultimately show ?thesis using n by blast
qed

text \<open>
  Claim C10 as stated fails in its consequence about hosts: the host of this URL is
  \<^verbatim>\<open>example.com\<close>, and the parser succeeds, because the search is not anchored at the host.
\<close>

theorem extract_shortcode_exact_counterexample:
  "url_host ''https://example.com/instagram.com/p/abc/'' = ''example.com''
   \<and> url_host ''https://example.com/instagram.com/p/abc/'' \<noteq> ''instagram.com''
   \<and> extract_shortcode_from_url ''https://example.com/instagram.com/p/abc/'' = Inr ''abc''"
  by (simp add: url_host_def extract_shortcode_from_url_def match_here_def)

text \<open>
  Claim C10, as amended, at concrete URLs: a query string directly after the token, and a
  URL on another host without the literal text.
\<close>

theorem extract_shortcode_exact_witness:
  "extract_shortcode_from_url ''https://www.instagram.com/p/abc?img_index=1'' = Inr ''abc?img_index=1''
   \<and> (\<nexists>p r. ''https://example.com/p/abc/'' = p @ ''instagram.com/p/'' @ r)
   \<and> extract_shortcode_from_url ''https://example.com/p/abc/''
       = Inl (ValueError ''https://example.com/p/abc/'')"
proof -
  have f1: "\<forall>j<length ''https://www.''.
              \<not> starts_post_path (drop j ''https://www.instagram.com/p/abc?img_index=1'')"
    unfolding starts_post_path_def by (simp add: All_less_Suc numeral_eq_Suc)
  have n: "\<nexists>p r. ''https://example.com/p/abc/'' = p @ ''instagram.com/p/'' @ r"
    by (auto simp: append_eq_Cons_conv Cons_eq_append_conv)
  have "extract_shortcode_from_url ''https://www.instagram.com/p/abc?img_index=1''
          = Inr ''abc?img_index=1''"
    using extract_shortcode_exact[of "''https://www.instagram.com/p/abc?img_index=1''",
        THEN conjunct2, THEN conjunct2, THEN conjunct2, rule_format,
        of "''https://www.''" "''abc''" "''img_index=1''"] f1
    by simp
  moreover have "extract_shortcode_from_url ''https://example.com/p/abc/''
       = Inl (ValueError ''https://example.com/p/abc/'')"
    using extract_shortcode_exact[of "''https://example.com/p/abc/''",
        THEN conjunct2, THEN conjunct2, THEN conjunct1] n
    by blast
  ultimately show ?thesis using n by blast
qed

section \<open>Properties of the dedup checker\<close>

lemma isdir_exists: "isdir fs p \<Longrightarrow> path_exists fs p"
  unfolding isdir_def path_exists_def by force

lemma child_name_Some_iff:
  "child_name d k = Some n \<longleftrightarrow> k = d @ ''/'' @ n \<and> n \<noteq> [] \<and> CHR ''/'' \<notin> set n"
proof (cases "prefix (d @ ''/'') k")
  case True
  then obtain r where k: "k = (d @ ''/'') @ r" unfolding prefix_def by blast
  have "drop (length d + 1) k = r" unfolding k by simp
  then show ?thesis
    unfolding child_name_def Let_def using True k by auto
next
  case False
  then have "k \<noteq> d @ ''/'' @ n" unfolding prefix_def by auto
  then show ?thesis unfolding child_name_def using False by simp
qed

lemma set_map_filter: "set (List.map_filter f xs) = {y. \<exists>x\<in>set xs. f x = Some y}"
  unfolding List.map_filter_def by force

lemma listdir_entries:
  "os_listdir fs d = Inr names \<Longrightarrow> set names = entries_of fs d \<and> distinct names \<and> isdir fs d"
proof -
  assume a: "os_listdir fs d = Inr names"
  then have d: "isdir fs d" and n: "names = remdups (List.map_filter (child_name d) (map fst fs))"
    unfolding os_listdir_def by (auto split: if_splits)
  have "set names = {n. \<exists>k\<in>fst ` set fs. child_name d k = Some n}"
    unfolding n by (simp add: set_map_filter)
  also have "\<dots> = entries_of fs d"
    unfolding entries_of_def path_exists_def child_name_Some_iff by auto
  finally show ?thesis using d n by simp
qed

lemma listdir_cases:
  "os_listdir fs d =
     (if isdir fs d then os_listdir fs d
      else if path_exists fs d then Inl NotADirectoryError else Inl FileNotFoundError)"
  unfolding os_listdir_def by simp

lemma any_contains_iff: "any_contains shortcode names \<longleftrightarrow> (\<exists>n\<in>set names. sublist shortcode n)"
  by (induction names) auto

lemma scan_dir_eq:
  "scan_dir fs d shortcode =
     (if not_a_directory fs d then Inl NotADirectoryError else Inr (dir_hit fs d shortcode))"
proof (cases "isdir fs d")
  case True
  then obtain names where n: "os_listdir fs d = Inr names"
    unfolding os_listdir_def by simp
  have "any_contains shortcode names = dir_hit fs d shortcode"
    using listdir_entries[OF n] True unfolding dir_hit_def any_contains_iff by simp
  then show ?thesis
    unfolding scan_dir_def not_a_directory_def using True n isdir_exists[OF True] by simp
next
  case False
  then show ?thesis
    unfolding scan_dir_def not_a_directory_def dir_hit_def os_listdir_def by simp
qed

text \<open>
  Claim C6.  Without a type hint the checker looks at \<^verbatim>\<open>albums/<shortcode>\<close> first, then at the
  names in \<^verbatim>\<open>individual_images\<close>, then at those in \<^verbatim>\<open>individual_videos\<close>; the first hit
  answers true and later locations are not consulted (not even one that would raise), and
  the answer is false when none matches.  A location that does not exist counts as no match
  and raises nothing: the only exception is for a flat directory that exists without being
  a directory.  The checker is a function of the file system that returns an answer only;
  it has no way to change the file system.
\<close>

theorem dedup_checks_in_order:
  "is_already_downloaded fs shortcode dir None =
     (if path_exists fs (os_path_join (os_path_join dir ''albums'') shortcode) then Inr True
      else if not_a_directory fs (os_path_join dir ''individual_images'') then Inl NotADirectoryError
      else if dir_hit fs (os_path_join dir ''individual_images'') shortcode then Inr True
      else if not_a_directory fs (os_path_join dir ''individual_videos'') then Inl NotADirectoryError
      else Inr (dir_hit fs (os_path_join dir ''individual_videos'') shortcode))
   \<and> (\<not> path_exists fs (os_path_join dir ''individual_images'') \<and>
      \<not> path_exists fs (os_path_join dir ''individual_videos'')
      \<longrightarrow> is_already_downloaded fs shortcode dir None
            = Inr (path_exists fs (os_path_join (os_path_join dir ''albums'') shortcode)))"
proof -
  have e: "is_already_downloaded fs shortcode dir None =
     (if path_exists fs (os_path_join (os_path_join dir ''albums'') shortcode) then Inr True
      else if not_a_directory fs (os_path_join dir ''individual_images'') then Inl NotADirectoryError
      else if dir_hit fs (os_path_join dir ''individual_images'') shortcode then Inr True
      else if not_a_directory fs (os_path_join dir ''individual_videos'') then Inl NotADirectoryError
      else Inr (dir_hit fs (os_path_join dir ''individual_videos'') shortcode))"
    unfolding is_already_downloaded_def scan_dir_eq by (simp split: bool.splits)
  have "\<not> path_exists fs d \<Longrightarrow> \<not> not_a_directory fs d \<and> \<not> dir_hit fs d shortcode" for d
    unfolding not_a_directory_def dir_hit_def using isdir_exists by blast
  then show ?thesis using e by simp
qed

text \<open>
  Claim C7, as amended.  When \<^verbatim>\<open>albums/<shortcode>\<close> exists, the checker with the hint
  \<^verbatim>\<open>album\<close> answers true.  When it does not exist and no name in \<^verbatim>\<open>individual_images\<close> or
  \<^verbatim>\<open>individual_videos\<close> contains the shortcode as a substring (each of the two being a
  directory or absent), the checker answers false for every hint.
\<close>

theorem dedup_hint_sound:
  "(path_exists fs (os_path_join (os_path_join dir ''albums'') shortcode)
      \<longrightarrow> is_already_downloaded fs shortcode dir (Some ''album'') = Inr True)
   \<and> (\<not> path_exists fs (os_path_join (os_path_join dir ''albums'') shortcode) \<and>
      \<not> not_a_directory fs (os_path_join dir ''individual_images'') \<and>
      \<not> not_a_directory fs (os_path_join dir ''individual_videos'') \<and>
      \<not> dir_hit fs (os_path_join dir ''individual_images'') shortcode \<and>
      \<not> dir_hit fs (os_path_join dir ''individual_videos'') shortcode
      \<longrightarrow> (\<forall>hint. is_already_downloaded fs shortcode dir hint = Inr False))"
  unfolding is_already_downloaded_def scan_dir_eq by (simp split: bool.splits)

text \<open>
  Claim C7 as stated fails: the only file is one of the longer shortcode \<^verbatim>\<open>XABCX\<close>, nothing of
  shortcode \<^verbatim>\<open>ABC\<close> is in any of the three locations, and the checker answers true for
  \<^verbatim>\<open>ABC\<close>, with the hint \<^verbatim>\<open>image\<close> and without a hint.
\<close>

theorem dedup_hint_sound_counterexample:
  "\<not> path_exists
       [(''instagram-downloads/individual_images/XABCX.jpg'', File),
        (''instagram-downloads/individual_images'', Dir),
        (''instagram-downloads'', Dir)]
       ''instagram-downloads/albums/ABC''
   \<and> is_already_downloaded
       [(''instagram-downloads/individual_images/XABCX.jpg'', File),
        (''instagram-downloads/individual_images'', Dir),
        (''instagram-downloads'', Dir)]
       ''ABC'' ''instagram-downloads'' (Some ''image'') = Inr True
   \<and> is_already_downloaded
       [(''instagram-downloads/individual_images/XABCX.jpg'', File),
        (''instagram-downloads/individual_images'', Dir),
        (''instagram-downloads'', Dir)]
       ''ABC'' ''instagram-downloads'' None = Inr True"
  by (simp add: is_already_downloaded_def scan_dir_def os_listdir_def os_path_join_def
      path_exists_def isdir_def List.map_filter_def child_name_def sublist_Cons_right)

text \<open>
  Claim C6 at concrete file systems: an album hit wins although \<^verbatim>\<open>individual_images\<close> is a
  regular file there; a video hit is found when the other two locations do not exist; and
  the empty file system gives false, not an error.
\<close>

theorem dedup_checks_in_order_witness:
  "is_already_downloaded
       [(''instagram-downloads/albums/ABC'', Dir), (''instagram-downloads/individual_images'', File)]
       ''ABC'' ''instagram-downloads'' None = Inr True
   \<and> is_already_downloaded
       [(''instagram-downloads/individual_videos/ABC.mp4'', File),
        (''instagram-downloads/individual_videos'', Dir)]
       ''ABC'' ''instagram-downloads'' None = Inr True
   \<and> is_already_downloaded [] ''ABC'' ''instagram-downloads'' None = Inr False"
proof -
  have h: "dir_hit [(''instagram-downloads/individual_videos/ABC.mp4'', File),
                    (''instagram-downloads/individual_videos'', Dir)]
             ''instagram-downloads/individual_videos'' ''ABC''"
    unfolding dir_hit_def entries_of_def
    by (auto simp: isdir_def path_exists_def sublist_Cons_right intro!: exI[of _ "''ABC.mp4''"])
  have "is_already_downloaded
       [(''instagram-downloads/albums/ABC'', Dir), (''instagram-downloads/individual_images'', File)]
       ''ABC'' ''instagram-downloads'' None = Inr True"
    using dedup_checks_in_order[of "[(''instagram-downloads/albums/ABC'', Dir),
        (''instagram-downloads/individual_images'', File)]" "''ABC''" "''instagram-downloads''"]
    by (simp add: os_path_join_def path_exists_def)
  moreover have "is_already_downloaded
       [(''instagram-downloads/individual_videos/ABC.mp4'', File),
        (''instagram-downloads/individual_videos'', Dir)]
       ''ABC'' ''instagram-downloads'' None = Inr True"
    using dedup_checks_in_order[of "[(''instagram-downloads/individual_videos/ABC.mp4'', File),
        (''instagram-downloads/individual_videos'', Dir)]" "''ABC''" "''instagram-downloads''"] h
    by (simp add: os_path_join_def path_exists_def not_a_directory_def isdir_def dir_hit_def)
  moreover have "is_already_downloaded [] ''ABC'' ''instagram-downloads'' None = Inr False"
    using dedup_checks_in_order[of "[]" "''ABC''" "''instagram-downloads''", THEN conjunct2]
    by (simp add: path_exists_def)
  ultimately show ?thesis by blast
qed

text \<open>
  Claim C7, as amended, at concrete file systems: an album that is there, and a shortcode
  that no name contains.
\<close>

theorem dedup_hint_sound_witness:
  "is_already_downloaded [(''instagram-downloads/albums/ABC'', Dir)]
       ''ABC'' ''instagram-downloads'' (Some ''album'') = Inr True
   \<and> (\<forall>hint. is_already_downloaded
         [(''instagram-downloads/individual_images/XYZ.jpg'', File),
          (''instagram-downloads/individual_images'', Dir)]
         ''ABC'' ''instagram-downloads'' hint = Inr False)"
proof -
  have n: "\<not> dir_hit [(''instagram-downloads/individual_images/XYZ.jpg'', File),
                      (''instagram-downloads/individual_images'', Dir)] d ''ABC''"
    if "d = ''instagram-downloads/individual_images'' \<or> d = ''instagram-downloads/individual_videos''"
    for d
    using that unfolding dir_hit_def entries_of_def
    by (auto simp: isdir_def path_exists_def sublist_Cons_right)
  have "is_already_downloaded [(''instagram-downloads/albums/ABC'', Dir)]
       ''ABC'' ''instagram-downloads'' (Some ''album'') = Inr True"
    using dedup_hint_sound[of "[(''instagram-downloads/albums/ABC'', Dir)]" "''instagram-downloads''"
        "''ABC''", THEN conjunct1]
    by (simp add: os_path_join_def path_exists_def)
  moreover have "\<forall>hint. is_already_downloaded
         [(''instagram-downloads/individual_images/XYZ.jpg'', File),
          (''instagram-downloads/individual_images'', Dir)]
         ''ABC'' ''instagram-downloads'' hint = Inr False"
    using dedup_hint_sound[of "[(''instagram-downloads/individual_images/XYZ.jpg'', File),
          (''instagram-downloads/individual_images'', Dir)]" "''instagram-downloads''"
        "''ABC''", THEN conjunct2] n
    by (simp add: os_path_join_def path_exists_def not_a_directory_def isdir_def)
  ultimately show ?thesis by blast
qed

section \<open>Properties of the loop\<close>

lemma map_filter_append: "List.map_filter f (xs @ ys) = List.map_filter f xs @ List.map_filter f ys"
  unfolding List.map_filter_def by simp

lemma clean_up_and_log_trace:
  assumes "clean_up_and_log url shortcode temp_dir s fs3 = (res, s')"
  shows "\<exists>evs. trace s' = trace s @ evs \<and> failed s' = failed s \<and> filter error_event evs = [] \<and>
           List.map_filter closing_url evs = (if res = None then [url] else [])"
proof (cases "shutil_rmtree fs3 temp_dir")
  case (Inl e)
  then have "res = Some e" "s' = s\<lparr>disk := fs3\<rparr>"
    using assms unfolding clean_up_and_log_def by simp_all
  then show ?thesis by (simp add: List.map_filter_def)
next
  case (Inr fs4)
  then have "res = None"
      "s' = s\<lparr>disk := fs4, trace := trace s @ [SuccessLog url, LogFinished shortcode]\<rparr>"
    using assms unfolding clean_up_and_log_def by simp_all
  then show ?thesis by (simp add: List.map_filter_def)
qed

lemma classify_and_place_trace:
  assumes "classify_and_place url shortcode temp_dir p s fs2 = (res, s')"
  shows "\<exists>evs. trace s' = trace s @ evs \<and> failed s' = failed s \<and> filter error_event evs = [] \<and>
           List.map_filter closing_url evs = (if res = None then [url] else [])"
proof -
  obtain r fs3 where pl: "place fs2 temp_dir shortcode (post_typename p = ''GraphSidecar'')
                            (post_is_video p) = (r, fs3)"
    by (cases "place fs2 temp_dir shortcode (post_typename p = ''GraphSidecar'') (post_is_video p)") auto
  show ?thesis
  proof (cases r)
    case None
    then have "clean_up_and_log url shortcode temp_dir s fs3 = (res, s')"
      using assms pl unfolding classify_and_place_def Let_def by simp
    then show ?thesis by (rule clean_up_and_log_trace)
  next
    case (Some e)
    then have "res = Some e" "s' = s\<lparr>disk := fs3\<rparr>"
      using assms pl unfolding classify_and_place_def Let_def by simp_all
    then show ?thesis by (simp add: List.map_filter_def)
  qed
qed

lemma download_to_temp_trace:
  assumes "download_to_temp total_urls url shortcode p s = (res, s')"
  shows "\<exists>evs. trace s' = trace s @ evs \<and> failed s' = failed s \<and> filter error_event evs = [] \<and>
           List.map_filter closing_url evs = (if res = None then [url] else [])"
proof -
  define temp_dir where "temp_dir = ''temp_'' @ shortcode"
  obtain r fs1 where mk: "makedirs (disk s) temp_dir True = (r, fs1)"
    by (cases "makedirs (disk s) temp_dir True") auto
  show ?thesis
  proof (cases r)
    case (Some e)
    then have "res = Some e" "s' = s\<lparr>disk := fs1\<rparr>"
      using assms mk unfolding download_to_temp_def Let_def temp_dir_def[symmetric] by simp_all
    then show ?thesis by (simp add: List.map_filter_def)
  next
    case None
    define s3 where "s3 = s\<lparr>disk := fs1,
                         trace := trace s @
                           [LogDownloading (processed s) total_urls url,
                            DownloadPost shortcode temp_dir]\<rparr>"
    have s3: "trace s3 = trace s @ [LogDownloading (processed s) total_urls url,
                            DownloadPost shortcode temp_dir]" "failed s3 = failed s"
      unfolding s3_def by simp_all
    obtain r2 fs2 where dl: "download_post fs1 p temp_dir = (r2, fs2)"
      by (cases "download_post fs1 p temp_dir") auto
    show ?thesis
    proof (cases r2)
      case (Some e)
      then have "res = Some e" "s' = s3\<lparr>disk := fs2\<rparr>"
        using assms mk None dl
        unfolding download_to_temp_def Let_def temp_dir_def[symmetric]
        by (simp_all add: s3_def)
      then show ?thesis using s3 by (simp add: List.map_filter_def)
    next
      case n2: None
      have "classify_and_place url shortcode temp_dir p s3 fs2 = (res, s')"
        using assms mk None dl n2
        unfolding download_to_temp_def Let_def temp_dir_def[symmetric]
        by (simp add: s3_def)
      from classify_and_place_trace[OF this] obtain evs where
        evs: "trace s' = trace s3 @ evs" "failed s' = failed s3" "filter error_event evs = []"
             "List.map_filter closing_url evs = (if res = None then [url] else [])"
        by blast
      have "trace s' = trace s @ ([LogDownloading (processed s) total_urls url,
                            DownloadPost shortcode temp_dir] @ evs)"
        using evs(1) s3(1) by simp
      moreover have "filter error_event ([LogDownloading (processed s) total_urls url,
                            DownloadPost shortcode temp_dir] @ evs) = []"
        using evs(3) by simp
      moreover have "List.map_filter closing_url ([LogDownloading (processed s) total_urls url,
                            DownloadPost shortcode temp_dir] @ evs)
                      = (if res = None then [url] else [])"
        unfolding map_filter_append evs(4) by (simp add: List.map_filter_def)
      ultimately show ?thesis using evs(2) s3(2) by metis
    qed
  qed
qed

lemma download_and_place_trace:
  assumes "download_and_place delay remote total_urls url shortcode s = (res, s')"
  shows "\<exists>evs. trace s' = trace s @ evs \<and> failed s' = failed s \<and> filter error_event evs = [] \<and>
           List.map_filter closing_url evs = (if res = None then [url] else [])"
proof (cases "processed s > 1 \<and> delay < 0")
  case True
  then have "res = Some (ValueError ''sleep length must be non-negative'')" "s' = s"
    using assms unfolding download_and_place_def by simp_all
  then show ?thesis by (simp add: List.map_filter_def)
next
  case False
  define pre where "pre = (if processed s > 1 then [Sleep delay] else []) @ [FromShortcode shortcode]"
  define s2 where "s2 = s\<lparr>trace := trace s @ pre\<rparr>"
  have s2: "trace s2 = trace s @ pre" "failed s2 = failed s" unfolding s2_def by simp_all
  have pre: "filter error_event pre = []" "List.map_filter closing_url pre = []"
    unfolding pre_def by (simp_all add: List.map_filter_def)
  have s2': "(if processed s > 1 then s\<lparr>trace := trace s @ [Sleep delay]\<rparr> else s)
               \<lparr>trace := trace (if processed s > 1 then s\<lparr>trace := trace s @ [Sleep delay]\<rparr> else s)
                           @ [FromShortcode shortcode]\<rparr> = s2"
    unfolding s2_def pre_def by simp
  have e: "download_and_place delay remote total_urls url shortcode s =
        (case remote shortcode of None \<Rightarrow> (Some RemoteError, s2)
         | Some p \<Rightarrow> download_to_temp total_urls url shortcode p s2)"
    unfolding download_and_place_def Let_def s2' using False by auto
  show ?thesis
  proof (cases "remote shortcode")
    case None
    then have "res = Some RemoteError" "s' = s2" using assms e by simp_all
    then show ?thesis using s2 pre by simp
  next
    case (Some p)
    then have "download_to_temp total_urls url shortcode p s2 = (res, s')" using assms e by simp
    from download_to_temp_trace[OF this] obtain evs where
      evs: "trace s' = trace s2 @ evs" "failed s' = failed s2" "filter error_event evs = []"
           "List.map_filter closing_url evs = (if res = None then [url] else [])"
      by blast
    have "trace s' = trace s @ (pre @ evs)" using evs(1) s2(1) by simp
    moreover have "filter error_event (pre @ evs) = []" using evs(3) pre(1) by simp
    moreover have "List.map_filter closing_url (pre @ evs) = (if res = None then [url] else [])"
      unfolding map_filter_append evs(4) pre(2) by simp
    ultimately show ?thesis using evs(2) s2(2) by metis
  qed
qed

lemma on_exception_trace:
  "\<exists>evs. trace (on_exception url e s) = trace s @ evs \<and>
         List.map_filter closing_url evs = [url] \<and>
         failed (on_exception url e s) = failed s + int (length (filter error_event evs))"
proof (intro exI[of _ "[LogError url e]"] conjI)
  show "trace (on_exception url e s) = trace s @ [LogError url e]"
    unfolding on_exception_def by simp
  show "List.map_filter closing_url [LogError url e] = [url]"
    by (simp add: List.map_filter_def)
  show "failed (on_exception url e s) = failed s + int (length (filter error_event [LogError url e]))"
    unfolding on_exception_def by simp
qed

lemma process_url_cases:
  "process_url delay remote total_urls url s =
     (case extract_shortcode_from_url url of
        Inl e \<Rightarrow> on_exception url e s
      | Inr shortcode \<Rightarrow>
          (case is_already_downloaded (disk s) shortcode base_dir None of
             Inl e \<Rightarrow> on_exception url e (s\<lparr>processed := processed s + 1\<rparr>)
           | Inr b \<Rightarrow>
               if b then s\<lparr>processed := processed s + 1, skipped := skipped s + 1,
                           trace := trace s @ [LogSkipping url]\<rparr>
               else (case download_and_place delay remote total_urls url shortcode
                            (s\<lparr>processed := processed s + 1\<rparr>) of
                       (Some e, s2) \<Rightarrow> on_exception url e s2
                     | (None, s2) \<Rightarrow> s2)))"
  unfolding process_url_def Let_def
  by (auto split: sum.splits bool.splits)


lemma process_url_trace:
  "\<exists>evs. trace (process_url delay remote total_urls url s) = trace s @ evs \<and>
         List.map_filter closing_url evs = [url] \<and>
         failed (process_url delay remote total_urls url s)
           = failed s + int (length (filter error_event evs))"
proof (cases "extract_shortcode_from_url url")
  case (Inl e)
  then have "process_url delay remote total_urls url s = on_exception url e s"
    unfolding process_url_cases by simp
  then show ?thesis using on_exception_trace[of url e s] by simp
next
  case (Inr shortcode)
  define s1 where "s1 = s\<lparr>processed := processed s + 1\<rparr>"
  have s1: "trace s1 = trace s" "failed s1 = failed s" unfolding s1_def by simp_all
  show ?thesis
  proof (cases "is_already_downloaded (disk s) shortcode base_dir None")
    case (Inl e)
    then have "process_url delay remote total_urls url s = on_exception url e s1"
      unfolding process_url_cases s1_def using Inr by simp
    then show ?thesis using on_exception_trace[of url e s1] s1 by simp
  next
    case b: (Inr b)
    show ?thesis
    proof (cases b)
      case True
      then have p: "process_url delay remote total_urls url s
                  = s\<lparr>processed := processed s + 1, skipped := skipped s + 1,
                           trace := trace s @ [LogSkipping url]\<rparr>"
        unfolding process_url_cases using Inr b by simp
      show ?thesis
        unfolding p by (intro exI[of _ "[LogSkipping url]"]) (simp add: List.map_filter_def)
    next
      case False
      obtain res s2 where d: "download_and_place delay remote total_urls url shortcode s1 = (res, s2)"
        by (cases "download_and_place delay remote total_urls url shortcode s1") auto
      from download_and_place_trace[OF d] obtain evs where
        evs: "trace s2 = trace s1 @ evs" "failed s2 = failed s1" "filter error_event evs = []"
             "List.map_filter closing_url evs = (if res = None then [url] else [])"
        by blast
      show ?thesis
      proof (cases res)
        case None
        then have p: "process_url delay remote total_urls url s = s2"
          unfolding process_url_cases using Inr b False d[unfolded s1_def] by simp
        show ?thesis
          unfolding p using evs s1 None by (intro exI[of _ evs]) simp
      next
        case (Some e)
        then have p: "process_url delay remote total_urls url s = on_exception url e s2"
          unfolding process_url_cases using Inr b False d[unfolded s1_def] by simp
        have "trace (on_exception url e s2) = trace s @ (evs @ [LogError url e])"
          unfolding on_exception_def using evs s1 by simp
        moreover have "List.map_filter closing_url (evs @ [LogError url e]) = [url]"
          unfolding map_filter_append evs(4) using Some by (simp add: List.map_filter_def)
        moreover have "failed (on_exception url e s2)
                         = failed s + int (length (filter error_event (evs @ [LogError url e])))"
          unfolding on_exception_def using evs s1 by simp
        ultimately show ?thesis unfolding p by blast
      qed
    qed
  qed
qed

lemma process_lines_trace:
  "\<exists>evs. trace (process_lines delay remote total_urls lines s) = trace s @ evs \<and>
         List.map_filter closing_url evs = filter (\<lambda>url. url \<noteq> []) (map strip lines) \<and>
         failed (process_lines delay remote total_urls lines s)
           = failed s + int (length (filter error_event evs))"
proof (induction lines arbitrary: s)
  case Nil
  then show ?case by (simp add: List.map_filter_def)
next
  case (Cons line rest)
  show ?case
  proof (cases "strip line = []")
    case True
    then show ?thesis using Cons.IH[of s] by simp
  next
    case False
    obtain e1 where e1: "trace (process_url delay remote total_urls (strip line) s) = trace s @ e1"
        "List.map_filter closing_url e1 = [strip line]"
        "failed (process_url delay remote total_urls (strip line) s)
           = failed s + int (length (filter error_event e1))"
      using process_url_trace by blast
    obtain e2 where e2:
        "trace (process_lines delay remote total_urls rest
                  (process_url delay remote total_urls (strip line) s))
           = trace (process_url delay remote total_urls (strip line) s) @ e2"
        "List.map_filter closing_url e2 = filter (\<lambda>url. url \<noteq> []) (map strip rest)"
        "failed (process_lines delay remote total_urls rest
                   (process_url delay remote total_urls (strip line) s))
           = failed (process_url delay remote total_urls (strip line) s)
             + int (length (filter error_event e2))"
      using Cons.IH by blast
    have "trace (process_lines delay remote total_urls (line # rest) s) = trace s @ (e1 @ e2)"
      using False e1 e2 by simp
    moreover have "List.map_filter closing_url (e1 @ e2)
                     = filter (\<lambda>url. url \<noteq> []) (map strip (line # rest))"
      using False e1 e2 by (simp add: map_filter_append)
    moreover have "failed (process_lines delay remote total_urls (line # rest) s)
                     = failed s + int (length (filter error_event (e1 @ e2)))"
      using False e1 e2 by simp
    ultimately show ?thesis by blast
  qed
qed





section \<open>Concrete runs of the orchestrator\<close>

lemma main_plain:
  assumes "setup_logging fs ts = (None, fs0)"
    and "create_layout fs0 = (None, fs1)"
    and "int (length (filter (\<lambda>line. strip line \<noteq> []) lines)) = total_urls"
    and "process_lines 3 remote total_urls lines (initial_state fs1) = s"
  shows "main plain_args ((plain_world lines remote fs)\<lparr>w_timestamp := ts\<rparr>)
           = (Summary total_urls (processed s - skipped s - failed s) (skipped s) (failed s), s)"
proof -
  define w where "w = (plain_world lines remote fs)\<lparr>w_timestamp := ts\<rparr>"
  have "\<not> proxy_test_fails plain_args w"
    unfolding proxy_test_fails_def plain_args_def given_def by simp
  moreover have "cookies_exception plain_args w = None"
    unfolding cookies_exception_def plain_args_def given_def by simp
  moreover have "w_disk w = fs" "w_timestamp w = ts"
      "w_input_file w = Some lines" "w_remote w = remote" "arg_delay plain_args = 3"
    unfolding w_def plain_world_def plain_args_def by simp_all
  ultimately show ?thesis
    unfolding main_def count_and_process_def Let_def w_def[symmetric] using assms by simp
qed

lemma plain_timestamp:
  "(plain_world lines remote fs)\<lparr>w_timestamp := ''20240101_000000''\<rparr> = plain_world lines remote fs"
  unfolding plain_world_def by simp

lemma empty_logging: "setup_logging [] ''20240101_000000'' = (None, fresh_logs)"
  by code_simp

lemma empty_layout: "create_layout fresh_logs = (None, fresh_layout)"
  by code_simp


text \<open>
  Claim C1 at a failing input.  The input file has one line, a URL from which no shortcode
  can be extracted.  The exception is raised before \<^verbatim>\<open>processed\<close> is incremented, and the
  handler increments \<^verbatim>\<open>failed\<close>; the summary line ``Successfully downloaded'' then shows
  \<^verbatim>\<open>processed - skipped - failed\<close>, which is \<open>-1\<close>, while no URL was downloaded, and the total
  of 1 differs from the sum \<open>-1 + 0 + 1\<close> of the three other numbers.
\<close>

theorem summary_miscounts_parse_failure:
  "main plain_args (plain_world [''https://example.com/not-a-post''] (\<lambda>shortcode. None) [])
     = (Summary 1 (- 1) 0 1,
        \<lparr>disk = fresh_layout,
         processed = 0, skipped = 0, failed = 1,
         trace = [LogError ''https://example.com/not-a-post''
                    (ValueError ''https://example.com/not-a-post'')]\<rparr>)"
proof -
  have t: "int (length (filter (\<lambda>line. strip line \<noteq> []) [''https://example.com/not-a-post''])) = 1"
    by code_simp
  have p: "process_lines 3 (\<lambda>shortcode. None) 1 [''https://example.com/not-a-post'']
             (initial_state fresh_layout)
           = \<lparr>disk = fresh_layout,
              processed = 0, skipped = 0, failed = 1,
              trace = [LogError ''https://example.com/not-a-post''
                         (ValueError ''https://example.com/not-a-post'')]\<rparr>"
    by code_simp
  show ?thesis
    using main_plain[OF empty_logging empty_layout t p] unfolding plain_timestamp by simp
qed

text \<open>
  Claim C2 at a failing input.  One URL of a single-image post, whose file the fetch library
  names after the date of the post.  The first run succeeds and places the file in
  \<^verbatim>\<open>individual_images\<close>.  The second run starts a minute later from the file system that the
  first one left, with the same list and the same fetch library: the checker finds no file
  name that contains the shortcode, so the post is fetched and placed again and nothing is
  skipped.
\<close>

theorem second_run_fetches_again:
  "main plain_args
     (plain_world [''https://www.instagram.com/p/ABC/'']
        (\<lambda>shortcode. if shortcode = ''ABC'' then Some image_post else None) [])
   = (Summary 1 1 0 0,
      \<lparr>disk = [(''instagram-downloads/individual_images/2024-01-01_00-00-00_UTC.jpg'', File)]
               @ fresh_layout,
       processed = 1, skipped = 0, failed = 0,
       trace = [FromShortcode ''ABC'',
                LogDownloading 1 1 ''https://www.instagram.com/p/ABC/'',
                DownloadPost ''ABC'' ''temp_ABC'',
                SuccessLog ''https://www.instagram.com/p/ABC/'',
                LogFinished ''ABC'']\<rparr>)
   \<and> main plain_args
     ((plain_world [''https://www.instagram.com/p/ABC/'']
        (\<lambda>shortcode. if shortcode = ''ABC'' then Some image_post else None)
        ([(''instagram-downloads/individual_images/2024-01-01_00-00-00_UTC.jpg'', File)]
           @ fresh_layout))
        \<lparr>w_timestamp := ''20240101_000100''\<rparr>)
   = (Summary 1 1 0 0,
      \<lparr>disk = [(''instagram-downloads/individual_images/2024-01-01_00-00-00_UTC.jpg'', File),
               (''logs/instagram_downloader_20240101_000100.log'', File)]
               @ fresh_layout,
       processed = 1, skipped = 0, failed = 0,
       trace = [FromShortcode ''ABC'',
                LogDownloading 1 1 ''https://www.instagram.com/p/ABC/'',
                DownloadPost ''ABC'' ''temp_ABC'',
                SuccessLog ''https://www.instagram.com/p/ABC/'',
                LogFinished ''ABC'']\<rparr>)"
proof -
  have t: "int (length (filter (\<lambda>line. strip line \<noteq> []) [''https://www.instagram.com/p/ABC/''])) = 1"
    by code_simp
  have p1: "process_lines 3 (\<lambda>shortcode. if shortcode = ''ABC'' then Some image_post else None) 1
              [''https://www.instagram.com/p/ABC/''] (initial_state fresh_layout)
           = \<lparr>disk = [(''instagram-downloads/individual_images/2024-01-01_00-00-00_UTC.jpg'', File)]
                      @ fresh_layout,
              processed = 1, skipped = 0, failed = 0,
              trace = [FromShortcode ''ABC'',
                       LogDownloading 1 1 ''https://www.instagram.com/p/ABC/'',
                       DownloadPost ''ABC'' ''temp_ABC'',
                       SuccessLog ''https://www.instagram.com/p/ABC/'',
                       LogFinished ''ABC'']\<rparr>"
    by code_simp
  have g2: "setup_logging
              ([(''instagram-downloads/individual_images/2024-01-01_00-00-00_UTC.jpg'', File)]
                 @ fresh_layout) ''20240101_000100''
            = (None,
               [(''logs/instagram_downloader_20240101_000100.log'', File),
                (''instagram-downloads/individual_images/2024-01-01_00-00-00_UTC.jpg'', File)]
                 @ fresh_layout)"
    by code_simp
  have l2: "create_layout
              ([(''logs/instagram_downloader_20240101_000100.log'', File),
                (''instagram-downloads/individual_images/2024-01-01_00-00-00_UTC.jpg'', File)]
                 @ fresh_layout)
            = (None,
               [(''logs/instagram_downloader_20240101_000100.log'', File),
                (''instagram-downloads/individual_images/2024-01-01_00-00-00_UTC.jpg'', File)]
                 @ fresh_layout)"
    by code_simp
  have p2: "process_lines 3 (\<lambda>shortcode. if shortcode = ''ABC'' then Some image_post else None) 1
              [''https://www.instagram.com/p/ABC/'']
              (initial_state
                 ([(''logs/instagram_downloader_20240101_000100.log'', File),
                   (''instagram-downloads/individual_images/2024-01-01_00-00-00_UTC.jpg'', File)]
                    @ fresh_layout))
           = \<lparr>disk = [(''instagram-downloads/individual_images/2024-01-01_00-00-00_UTC.jpg'', File),
                      (''logs/instagram_downloader_20240101_000100.log'', File)]
                      @ fresh_layout,
              processed = 1, skipped = 0, failed = 0,
              trace = [FromShortcode ''ABC'',
                       LogDownloading 1 1 ''https://www.instagram.com/p/ABC/'',
                       DownloadPost ''ABC'' ''temp_ABC'',
                       SuccessLog ''https://www.instagram.com/p/ABC/'',
                       LogFinished ''ABC'']\<rparr>"
    by code_simp
  show ?thesis
    using main_plain[OF empty_logging empty_layout t p1] main_plain[OF g2 l2 t p2]
    unfolding plain_timestamp by simp
qed

text \<open>
  Claim C3 at a failing input.  Two URLs whose download raises after the temporary directory
  was created.  Each exception is caught and counted, and the run reaches its summary, but
  \<^verbatim>\<open>shutil.rmtree\<close> is only reached when nothing raised before it: after the run both
  \<^verbatim>\<open>temp_ABC\<close> and \<^verbatim>\<open>temp_DEF\<close> are still there, with the files written so far.
\<close>

theorem failed_download_leaves_temp_dir:
  "main plain_args
     (plain_world [''https://www.instagram.com/p/ABC/'', ''https://www.instagram.com/p/DEF/'']
        (\<lambda>shortcode. Some broken_post) [])
   = (Summary 2 0 0 2,
      \<lparr>disk = [(''temp_DEF/a.jpg'', File), (''temp_DEF'', Dir),
               (''temp_ABC/a.jpg'', File), (''temp_ABC'', Dir)] @ fresh_layout,
       processed = 2, skipped = 0, failed = 2,
       trace = [FromShortcode ''ABC'',
                LogDownloading 1 2 ''https://www.instagram.com/p/ABC/'',
                DownloadPost ''ABC'' ''temp_ABC'',
                LogError ''https://www.instagram.com/p/ABC/'' RemoteError,
                Sleep 3,
                FromShortcode ''DEF'',
                LogDownloading 2 2 ''https://www.instagram.com/p/DEF/'',
                DownloadPost ''DEF'' ''temp_DEF'',
                LogError ''https://www.instagram.com/p/DEF/'' RemoteError]\<rparr>)"
proof -
  have t: "int (length (filter (\<lambda>line. strip line \<noteq> [])
              [''https://www.instagram.com/p/ABC/'', ''https://www.instagram.com/p/DEF/''])) = 2"
    by code_simp
  have p: "process_lines 3 (\<lambda>shortcode. Some broken_post) 2
              [''https://www.instagram.com/p/ABC/'', ''https://www.instagram.com/p/DEF/'']
             (initial_state fresh_layout)
           = \<lparr>disk = [(''temp_DEF/a.jpg'', File), (''temp_DEF'', Dir),
                      (''temp_ABC/a.jpg'', File), (''temp_ABC'', Dir)] @ fresh_layout,
              processed = 2, skipped = 0, failed = 2,
              trace = [FromShortcode ''ABC'',
                       LogDownloading 1 2 ''https://www.instagram.com/p/ABC/'',
                       DownloadPost ''ABC'' ''temp_ABC'',
                       LogError ''https://www.instagram.com/p/ABC/'' RemoteError,
                       Sleep 3,
                       FromShortcode ''DEF'',
                       LogDownloading 2 2 ''https://www.instagram.com/p/DEF/'',
                       DownloadPost ''DEF'' ''temp_DEF'',
                       LogError ''https://www.instagram.com/p/DEF/'' RemoteError]\<rparr>"
    by code_simp
  show ?thesis
    using main_plain[OF empty_logging empty_layout t p] unfolding plain_timestamp by simp
qed

section \<open>Properties of the setup\<close>





























section \<open>Properties of the file placer\<close>






































end
